theory Spec2Isabelle
  imports Main "HOL-Library.Multiset" "HOL-Library.Sublist"
begin

section \<open>Errors\<close>

text \<open>
  A Go \<^verbatim>\<open>error\<close> is modelled by its message. \<^verbatim>\<open>errors.New(msg)\<close> is the message itself
  and \<^verbatim>\<open>errors.Wrap(err, msg)\<close> prefixes the message of a non-nil error with the context.
  A function returning \<^verbatim>\<open>(T, error)\<close> returns a value of \<open>error + T\<close>; a function
  returning only \<^verbatim>\<open>error\<close> returns an \<open>error option\<close>, \<open>None\<close> being \<^verbatim>\<open>nil\<close>.
\<close>

type_synonym error = string

definition errors_New :: "string \<Rightarrow> error" where
  "errors_New msg = msg"

definition errors_Wrap :: "error \<Rightarrow> string \<Rightarrow> error" where
  "errors_Wrap err msg = msg @ '': '' @ err"

text \<open>
  A panic that nothing recovers ends the whole process, so a function that can panic
  returns an \<open>outcome\<close>: either the panic value or what the function returned.
\<close>

datatype 'a outcome = Panic string | Return 'a

section \<open>Configuration and catalog\<close>

text \<open>
  A Go map is an association list whose keys are distinct. A lookup \<^verbatim>\<open>m[k]\<close> is
  \<open>map_of m k\<close>. The order of the list stands for the order in which one \<^verbatim>\<open>range\<close>
  over the map visits its entries, which Go leaves unspecified: a theorem about a map
  is stated for every list that represents it.
\<close>

type_synonym Sections = "(string \<times> string list) list"
type_synonym Samples = "(string \<times> Sections) list"

record Config =
  Download :: bool
  Era :: string
  Section :: string
  Samples :: Samples

record App =
  Config :: Config

definition NewApp :: "Config \<Rightarrow> error + App" where
  "NewApp conf = Inr \<lparr>Config = conf\<rparr>"

text \<open>The map literal of \<^verbatim>\<open>NewConfig\<close>, in the order of the source text.\<close>

definition catalog :: Samples where
  "catalog =
  [
   (''pre-2012'',
    [
     (''woodwind'',
       [
        ''http://theremin.music.uiowa.edu/MISflute.html'',
        ''http://theremin.music.uiowa.edu/MISaltoflute.html'',
        ''http://theremin.music.uiowa.edu/MISbassflute.html'',
        ''http://theremin.music.uiowa.edu/MISoboe.html'',
        ''http://theremin.music.uiowa.edu/MISEbclarinet.html'',
        ''http://theremin.music.uiowa.edu/MISBbclarinet.html'',
        ''http://theremin.music.uiowa.edu/MISbassclarinet.html'',
        ''http://theremin.music.uiowa.edu/MISbassoon.html'',
        ''http://theremin.music.uiowa.edu/MISsopranosaxophone.html'',
        ''http://theremin.music.uiowa.edu/MISaltosaxophone.html''
       ]),
     (''brass'',
       [
        ''http://theremin.music.uiowa.edu/MISFrenchhorn.html'',
        ''http://theremin.music.uiowa.edu/MISBbtrumpet.html'',
        ''http://theremin.music.uiowa.edu/MIStenortrombone.html'',
        ''http://theremin.music.uiowa.edu/MISbasstrombone.html'',
        ''http://theremin.music.uiowa.edu/MIStuba.html''
       ]),
     (''strings'',
       [
        ''http://theremin.music.uiowa.edu/MISviolin.html'',
        ''http://theremin.music.uiowa.edu/MISviola.html'',
        ''http://theremin.music.uiowa.edu/MIScello.html'',
        ''http://theremin.music.uiowa.edu/MISdoublebass.html'',
        ''http://theremin.music.uiowa.edu/MISviolin2012.html'',
        ''http://theremin.music.uiowa.edu/MISviola2012.html'',
        ''http://theremin.music.uiowa.edu/MIScello2012.html'',
        ''http://theremin.music.uiowa.edu/MISdoublebass2012.html''
       ]),
     (''percussion'',
       [
        ''http://theremin.music.uiowa.edu/Mismarimba.html'',
        ''http://theremin.music.uiowa.edu/MISxylophone.html'',
        ''http://theremin.music.uiowa.edu/Misvibraphone.html'',
        ''http://theremin.music.uiowa.edu/MISbells.html'',
        ''http://theremin.music.uiowa.edu/MIScrotales.html'',
        ''http://theremin.music.uiowa.edu/MISgongtamtams.html'',
        ''http://theremin.music.uiowa.edu/MIShandpercussion.html'',
        ''http://theremin.music.uiowa.edu/MIStambourines.html''
       ]),
     (''piano/other'',
       [
        ''http://theremin.music.uiowa.edu/MISpiano.html'',
        ''http://theremin.music.uiowa.edu/MISballoonpop.html'',
        ''http://theremin.music.uiowa.edu/MISguitar.html''
       ]),
     (''foundobjects'',
       [
        ''http://theremin.music.uiowa.edu/MISfoundobjects1.html''
       ])
    ]),
   (''post-2012'',
    [
     (''woodwinds'',
       [
        ''http://theremin.music.uiowa.edu/MIS-Pitches-2012/MISFlute2012.html'',
        ''http://theremin.music.uiowa.edu/MIS-Pitches-2012/MISaltoflute2012.html'',
        ''http://theremin.music.uiowa.edu/MIS-Pitches-2012/MISBassFlute2012.html'',
        ''http://theremin.music.uiowa.edu/MIS-Pitches-2012/MISOboe2012.html'',
        ''http://theremin.music.uiowa.edu/MIS-Pitches-2012/MISEbClarinet2012.html'',
        ''http://theremin.music.uiowa.edu/MIS-Pitches-2012/MISBbClarinet2012.html'',
        ''http://theremin.music.uiowa.edu/MIS-Pitches-2012/MISBbBassClarinet2012.html'',
        ''http://theremin.music.uiowa.edu/MIS-Pitches-2012/MISBassoon2012.html'',
        ''http://theremin.music.uiowa.edu/MIS-Pitches-2012/MISBbSopranoSaxophone2012.html'',
        ''http://theremin.music.uiowa.edu/MIS-Pitches-2012/MISEbAltoSaxophone2012.html''
       ]),
     (''brass'',
       [
        ''http://theremin.music.uiowa.edu/MIS-Pitches-2012/MISHorn2012.html'',
        ''http://theremin.music.uiowa.edu/MIS-Pitches-2012/MISBbTrumpet2012.html'',
        ''http://theremin.music.uiowa.edu/MIS-Pitches-2012/MISTenorTrombone2012.html'',
        ''http://theremin.music.uiowa.edu/MIS-Pitches-2012/MISBassTrombone2012.html'',
        ''http://theremin.music.uiowa.edu/MIS-Pitches-2012/MISTuba2012.html'',
        ''http://theremin.music.uiowa.edu/MIS-Pitches-2012/MISBbBassClarinet2012.html'',
        ''http://theremin.music.uiowa.edu/MIS-Pitches-2012/MISBassoon2012.html'',
        ''http://theremin.music.uiowa.edu/MIS-Pitches-2012/MISBbSopranoSaxophone2012.html'',
        ''http://theremin.music.uiowa.edu/MIS-Pitches-2012/MISEbAltoSaxophone2012.html''
       ]),
     (''strings'',
       [
        ''http://theremin.music.uiowa.edu/MIS-Pitches-2012/MISViolin2012.html'',
        ''http://theremin.music.uiowa.edu/MIS-Pitches-2012/MISViola2012.html'',
        ''http://theremin.music.uiowa.edu/MIS-Pitches-2012/MISCello2012.html'',
        ''http://theremin.music.uiowa.edu/MIS-Pitches-2012/MISDoubleBass2012.html''
       ]),
     (''percussion'',
       [
        ''http://theremin.music.uiowa.edu/MIS-Pitches-2012/MISMarimba2012.html'',
        ''http://theremin.music.uiowa.edu/MIS-Pitches-2012/MISxylophone2012.html'',
        ''http://theremin.music.uiowa.edu/MIS-Pitches-2012/MISVibraphone2012.html'',
        ''http://theremin.music.uiowa.edu/MIS-Pitches-2012/MISBells2012.html'',
        ''http://theremin.music.uiowa.edu/MIS-Pitches-2012/MISCrotales2012.html'',
        ''http://theremin.music.uiowa.edu/MIS-Pitches-2012/MISCymbals2012.html'',
        ''http://theremin.music.uiowa.edu/MIS-Pitches-2012/MISGongsTamTams2012.html'',
        ''http://theremin.music.uiowa.edu/MIS-Pitches-2012/MISHandPercussion2012.html'',
        ''http://theremin.music.uiowa.edu/MIS-Pitches-2012/MISTambourines2012.html''
       ]),
     (''foundobjects'',
       [
        ''http://theremin.music.uiowa.edu/MISfoundobjects2.html''
       ])
    ])
  ]"

text \<open>
  \<^verbatim>\<open>NewConfig\<close> after \<^verbatim>\<open>flag.Parse\<close>: the three arguments are the parsed values of the
  flags \<^verbatim>\<open>-dl\<close>, \<^verbatim>\<open>-e\<close> and \<^verbatim>\<open>-s\<close>, whose defaults are false, \<^verbatim>\<open>all\<close> and the
  empty string.
\<close>

definition NewConfig :: "bool \<Rightarrow> string \<Rightarrow> string \<Rightarrow> error + Config" where
  "NewConfig dl e s =
    (let config = \<lparr>Download = dl, Era = e, Section = s, Samples = catalog\<rparr> in
     if Era config \<noteq> ''all'' then
       (case map_of (Samples config) (Era config) of
          None \<Rightarrow> Inl (errors_New (''unsupported era: '' @ Era config))
        | Some sections \<Rightarrow>
            if length (Section config) > 0 then
              (case map_of sections (Section config) of
                 None \<Rightarrow> Inl (errors_New (''unsupported section: '' @ Section config))
               | Some _ \<Rightarrow> Inr config)
            else Inr config)
     else Inr config)"

text \<open>
  \<^verbatim>\<open>App.urls\<close>, the same in both versions of the program. Each \<^verbatim>\<open>range\<close> loop is a
  left fold that appends to \<^verbatim>\<open>out\<close>.
\<close>

definition urls :: "App \<Rightarrow> error + string list" where
  "urls app =
    (let out = [] in
     if Era (Config app) \<noteq> ''all'' then
       (case map_of (Samples (Config app)) (Era (Config app)) of
          None \<Rightarrow> Inl (errors_New (''unsupported era: '' @ Era (Config app)))
        | Some sections \<Rightarrow>
            if length (Section (Config app)) > 0 then
              (case map_of sections (Section (Config app)) of
                 None \<Rightarrow> Inl (errors_New (''unsupported section: '' @ Section (Config app)))
               | Some us \<Rightarrow> Inr (out @ us))
            else Inr (foldl (\<lambda>out (_, us). out @ us) out sections))
     else
       Inr (foldl (\<lambda>out (_, sections). foldl (\<lambda>out (_, us). out @ us) out sections)
              out (Samples (Config app))))"

text \<open>
  \<open>is_catalog S\<close>: the association list \<open>S\<close> represents the map that \<^verbatim>\<open>NewConfig\<close>
  builds, with its eras and, inside each era, its sections in any order. The URL lists
  are Go slices and keep their order.
\<close>

definition is_catalog :: "Samples \<Rightarrow> bool" where
  "is_catalog S \<longleftrightarrow> mset (map (apsnd mset) S) = mset (map (apsnd mset) catalog)"

section \<open>The world outside the program\<close>

text \<open>
  The network, the HTML parser, the URL parser and the operating system are not code of
  the program. They are the fields of an environment, and every theorem holds for every
  environment. \<open>Response\<close>, \<open>URL\<close>, \<open>Attribute\<close> and \<open>Node\<close> keep the fields of
  \<^verbatim>\<open>http.Response\<close>, \<^verbatim>\<open>url.URL\<close>, \<^verbatim>\<open>html.Attribute\<close> and \<^verbatim>\<open>html.Node\<close> that the
  program reads.
\<close>

record Response =
  Status :: string
  StatusCode :: int
  Body :: string

record URL =
  Host :: string
  Path :: string

record Attribute =
  Key :: string
  Val :: string

datatype Node = Node (Data: string) (Attr: "Attribute list") (Children: "Node list")

text \<open>
  \<open>http_Get\<close> is \<^verbatim>\<open>http.Get\<close>, which follows redirects: the response is the last one.
  \<open>FindAll_A root\<close> is \<^verbatim>\<open>scrape.FindAll(root, scrape.ByTag(atom.A))\<close>.
  \<open>rangeKeys ks\<close> is the order in which a \<^verbatim>\<open>range\<close> visits the keys of a map that the
  program built by inserting the keys \<open>ks\<close> in this order.
  \<open>os_MkdirAll\<close>, \<open>os_Create\<close> and \<open>io_Copy\<close> give the error of the call, if it fails.
\<close>

record Env =
  http_Get :: "string \<Rightarrow> error + Response"
  html_Parse :: "string \<Rightarrow> error + Node"
  FindAll_A :: "Node \<Rightarrow> Node list"
  stdurl_Parse :: "string \<Rightarrow> error + URL"
  rangeKeys :: "string list \<Rightarrow> string list"
  path_Dir :: "string \<Rightarrow> string"
  os_MkdirAll :: "string \<Rightarrow> error option"
  os_Create :: "string \<Rightarrow> error option"
  io_Copy :: "string \<Rightarrow> string \<Rightarrow> error option"

text \<open>\<^verbatim>\<open>strings.HasPrefix\<close> and \<^verbatim>\<open>strings.HasSuffix\<close>, on byte strings.\<close>

definition HasPrefix :: "string \<Rightarrow> string \<Rightarrow> bool" where
  "HasPrefix s pre \<longleftrightarrow> length pre \<le> length s \<and> take (length pre) s = pre"

definition HasSuffix :: "string \<Rightarrow> string \<Rightarrow> bool" where
  "HasSuffix s suf \<longleftrightarrow> length suf \<le> length s \<and> drop (length s - length suf) s = suf"

section \<open>Page scraper\<close>

definition IsAudioFile :: "string \<Rightarrow> bool" where
  "IsAudioFile s =
    (if HasSuffix s ''.aif'' \<or> HasSuffix s ''.aiff'' \<or> HasSuffix s ''.wav'' then True
     else False)"

text \<open>
  The map \<^verbatim>\<open>dm\<close> has keys only: it is the list of its keys, without repetition, in the
  order of their first insertion. \<open>dm_insert k dm\<close> is \<^verbatim>\<open>dm[k] = struct{}{}\<close>.
\<close>

definition dm_insert :: "string \<Rightarrow> string list \<Rightarrow> string list" where
  "dm_insert k dm = (if k \<in> set dm then dm else dm @ [k])"

text \<open>The body of the inner loop of \<^verbatim>\<open>App.scrape\<close>, for one attribute of one anchor.\<close>

definition scrapeAttr :: "URL \<Rightarrow> string list \<Rightarrow> Attribute \<Rightarrow> string list" where
  "scrapeAttr u dm attr =
    (if Key attr \<noteq> ''href'' \<or> \<not> IsAudioFile (Val attr) then dm
     else
       let val = Val attr;
           val = (if HasPrefix (Val attr) ''../'' then drop 3 (Val attr) else val)
       in dm_insert (''http://'' @ Host u @ ''/'' @ val) dm)"

definition scrape :: "Env \<Rightarrow> string \<Rightarrow> error + string list" where
  "scrape env url =
    (case http_Get env url of
       Inl err \<Rightarrow> Inl (errors_Wrap err (''fetching '' @ url))
     | Inr resp \<Rightarrow>
        (case html_Parse env (Body resp) of
           Inl err \<Rightarrow> Inl (errors_Wrap err ''parsing html'')
         | Inr root \<Rightarrow>
            (case stdurl_Parse env url of
               Inl err \<Rightarrow> Inl (errors_Wrap err ''parsing url'')
             | Inr u \<Rightarrow>
                let dm = [];
                    links = FindAll_A env root;
                    dm = foldl (\<lambda>dm link. foldl (scrapeAttr u) dm (Attr link)) dm links;
                    downloads = foldl (\<lambda>downloads u. downloads @ [u]) [] (rangeKeys env dm)
                in Inr downloads)))"

section \<open>Fetcher and writer\<close>

record Download =
  Content :: string
  Location :: string

text \<open>
  A \<^verbatim>\<open>select\<close> between \<^verbatim>\<open>ctx.Done()\<close> and a communication on the channel \<^verbatim>\<open>dc\<close>: the
  scheduler decides which case runs.
\<close>

datatype select = CtxDone | Comm

text \<open>
  The function that \<^verbatim>\<open>App.contentFetcher\<close> returns. It gives the error it returns and
  the item it sent on \<^verbatim>\<open>dc\<close>, if any; a transport error of \<^verbatim>\<open>http.Get\<close> is a panic.
\<close>

definition contentFetcher :: "Env \<Rightarrow> select \<Rightarrow> string \<Rightarrow> (error option \<times> Download option) outcome" where
  "contentFetcher env sel download =
    (case http_Get env download of
       Inl err \<Rightarrow> Panic err
     | Inr resp \<Rightarrow>
        if StatusCode resp \<ge> 300 then
          Return (Some (errors_New (download @ '': '' @ Status resp)), None)
        else
          (case sel of
             CtxDone \<Rightarrow> Return (None, None)
           | Comm \<Rightarrow> Return (None, Some \<lparr>Content = Body resp, Location = download\<rparr>)))"

text \<open>
  \<^verbatim>\<open>u.Path[1:]\<close>, the path of the file that the writer creates. Slicing an empty string
  from 1 is out of range and panics.
\<close>

definition localPath :: "URL \<Rightarrow> string outcome" where
  "localPath u =
    (if length (Path u) < 1 then Panic ''slice bounds out of range [1:0]''
     else Return (drop 1 (Path u)))"

text \<open>
  The function that \<^verbatim>\<open>App.contentWriter\<close> returns, as the list of the calls it makes to
  the operating system and the error it returns. Its argument is what the
  \<^verbatim>\<open>select\<close> received: \<open>None\<close> when \<^verbatim>\<open>ctx.Done()\<close> ran, the item from \<^verbatim>\<open>dc\<close> otherwise.
  The deferred calls run last, the latest first.
\<close>

datatype oscall =
  MkdirAll string
  | Create string
  | Copy string string
  | CloseFile string
  | CloseContent string

definition contentWriter :: "Env \<Rightarrow> Download option \<Rightarrow> (oscall list \<times> error option) outcome" where
  "contentWriter env recv =
    (case recv of
       None \<Rightarrow> Return ([], None)
     | Some download \<Rightarrow>
        (case stdurl_Parse env (Location download) of
           Inl err \<Rightarrow>
             Return ([CloseContent (Location download)], Some (errors_Wrap err ''parsing url''))
         | Inr u \<Rightarrow>
            (case localPath u of
               Panic p \<Rightarrow> Panic p
             | Return file \<Rightarrow>
                (case os_MkdirAll env (path_Dir env file) of
                   Some err \<Rightarrow>
                     Return ([MkdirAll (path_Dir env file), CloseContent (Location download)],
                             Some (errors_Wrap err ''making directory''))
                 | None \<Rightarrow>
                    (case os_Create env file of
                       Some err \<Rightarrow>
                         Return ([MkdirAll (path_Dir env file), Create file,
                                  CloseContent (Location download)],
                                 Some (errors_Wrap err ''creating file''))
                     | None \<Rightarrow>
                        (case io_Copy env file (Content download) of
                           Some err \<Rightarrow>
                             Return ([MkdirAll (path_Dir env file), Create file,
                                      Copy file (Content download), CloseFile file,
                                      CloseContent (Location download)],
                                     Some (errors_Wrap err ''writing file''))
                         | None \<Rightarrow>
                             Return ([MkdirAll (path_Dir env file), Create file,
                                      Copy file (Content download), CloseFile file,
                                      CloseContent (Location download)],
                                     None)))))))"

section \<open>The scraper's result, stated apart from the loops\<close>

text \<open>
  \<open>hrefs links\<close> lists the values of the \<^verbatim>\<open>href\<close> attributes of the anchors, in document
  order. \<open>resolved u v\<close> is the absolute URL of the value \<open>v\<close> found on a page of host
  \<open>Host u\<close>, written with \<open>prefix\<close> of the library and not with the program's test.
  \<open>audio_links u vs\<close> resolves the values of \<open>vs\<close> that \<open>IsAudioFile\<close> accepts.
\<close>

definition hrefs :: "Node list \<Rightarrow> string list" where
  "hrefs links = concat (map (\<lambda>link. map Val (filter (\<lambda>attr. Key attr = ''href'') (Attr link))) links)"

definition resolved :: "URL \<Rightarrow> string \<Rightarrow> string" where
  "resolved u v = ''http://'' @ Host u @ ''/'' @ (if prefix ''../'' v then drop 3 v else v)"

definition audio_links :: "URL \<Rightarrow> string list \<Rightarrow> string list" where
  "audio_links u vs = map (resolved u) (filter IsAudioFile vs)"

section \<open>Inputs for the examples\<close>

text \<open>
  The four seed URLs that the literal lists twice, \<open>app_of\<close>, which builds an
  application from an era, a section and a representation of the catalog, and the
  catalog with its eras and its sections visited in the reverse order.
\<close>

definition duplicated :: "string list" where
  "duplicated =
    [''http://theremin.music.uiowa.edu/MIS-Pitches-2012/MISBbBassClarinet2012.html'',
     ''http://theremin.music.uiowa.edu/MIS-Pitches-2012/MISBassoon2012.html'',
     ''http://theremin.music.uiowa.edu/MIS-Pitches-2012/MISBbSopranoSaxophone2012.html'',
     ''http://theremin.music.uiowa.edu/MIS-Pitches-2012/MISEbAltoSaxophone2012.html'']"

definition app_of :: "string \<Rightarrow> string \<Rightarrow> Samples \<Rightarrow> App" where
  "app_of e s S = \<lparr>Config = \<lparr>Download = False, Era = e, Section = s, Samples = S\<rparr>\<rparr>"

definition catalog_reordered :: Samples where
  "catalog_reordered = map (apsnd rev) (rev catalog)"

text \<open>
  A page whose anchors are the children of its root, an environment that serves it with
  a given status from the host \<^verbatim>\<open>host\<close> and visits map keys in the reverse order of
  their insertion, and an environment whose network is down.
\<close>

definition page_anchors :: "Node list" where
  "page_anchors =
    [Node ''a'' [\<lparr>Key = ''href'', Val = ''a.wav''\<rparr>] [],
     Node ''a'' [\<lparr>Key = ''class'', Val = ''x.wav''\<rparr>, \<lparr>Key = ''href'', Val = ''../b.aiff''\<rparr>] [],
     Node ''a'' [\<lparr>Key = ''href'', Val = ''c.txt''\<rparr>] [],
     Node ''a'' [\<lparr>Key = ''href'', Val = ''d.AIF''\<rparr>] [],
     Node ''a'' [\<lparr>Key = ''href'', Val = ''a.wav''\<rparr>] []]"

definition example_env :: "int \<Rightarrow> string \<Rightarrow> Node list \<Rightarrow> Env" where
  "example_env code status anchors =
    \<lparr>http_Get = (\<lambda>url. Inr \<lparr>Status = status, StatusCode = code, Body = ''<html>''\<rparr>),
     html_Parse = (\<lambda>body. Inr (Node ''html'' [] anchors)),
     FindAll_A = Children,
     stdurl_Parse = (\<lambda>url. Inr \<lparr>Host = ''host'', Path = ''/index.html''\<rparr>),
     rangeKeys = rev,
     path_Dir = (\<lambda>p. ''.''),
     os_MkdirAll = (\<lambda>dir. None),
     os_Create = (\<lambda>file. None),
     io_Copy = (\<lambda>file content. None)\<rparr>"

definition env_unreachable :: Env where
  "env_unreachable =
    (example_env 200 ''200 OK'' [])\<lparr>http_Get := (\<lambda>url. Inl ''dial tcp: connection refused'')\<rparr>"

section \<open>The URL selector\<close>

subsection \<open>The loops as concatenations\<close>

lemma foldl_append_urls:
  "foldl (\<lambda>out (_, us). out @ us) acc secs = acc @ concat (map snd secs)"
  by (induction secs arbitrary: acc) (auto)

lemma foldl_append_sections:
  "foldl (\<lambda>out (_, sections). foldl (\<lambda>out (_, us). out @ us) out sections) acc S
     = acc @ concat (map (\<lambda>(_, sections). concat (map snd sections)) S)"
  by (induction S arbitrary: acc) (auto simp: foldl_append_urls)

lemma urls_all_eq:
  "Era (Config app) = ''all'' \<Longrightarrow>
   urls app = Inr (concat (map (\<lambda>(_, sections). concat (map snd sections)) (Samples (Config app))))"
  by (simp add: urls_def foldl_append_sections)

lemma length_concat_sections:
  "length (concat (map snd secs)) = (\<Sum>(s, us) \<leftarrow> secs. length us)"
  by (induction secs) auto

lemma length_concat_samples:
  "length (concat (map (\<lambda>(_, sections). concat (map snd sections)) S))
     = (\<Sum>(e, sections) \<leftarrow> S. \<Sum>(s, us) \<leftarrow> sections. length us)"
  by (induction S) (auto simp: length_concat_sections)

lemma set_concat_sections:
  "set (concat (map snd secs)) = (\<Union>(s, us) \<in> set secs. set us)"
  by (induction secs) auto

lemma set_concat_samples:
  "set (concat (map (\<lambda>(_, sections). concat (map snd sections)) S))
     = (\<Union>(e, sections) \<in> set S. \<Union>(s, us) \<in> set sections. set us)"
  by (induction S) (auto simp: set_concat_sections simp del: set_concat)

subsection \<open>Representations of the catalog\<close>

lemma catalog_keys: "map fst catalog = [''pre-2012'', ''post-2012'']"
  by (simp add: catalog_def)

lemma catalog_sections_wf:
  "(e, secs) \<in> set catalog \<Longrightarrow> distinct (map fst secs) \<and> [] \<notin> fst ` set secs"
  by (auto simp: catalog_def)

lemma is_catalog_refl: "is_catalog catalog"
  by (simp add: is_catalog_def)

lemma is_catalog_keys:
  assumes "is_catalog S"
  shows "mset (map fst S) = mset (map fst catalog)"
proof -
  have "map fst S = map fst (map (apsnd mset) S)" by (simp add: comp_def)
  moreover have "map fst catalog = map fst (map (apsnd mset) catalog)" by (simp add: comp_def)
  ultimately show ?thesis
    using assms unfolding is_catalog_def by (metis mset_map)
qed

lemma is_catalog_distinct: "is_catalog S \<Longrightarrow> distinct (map fst S)"
proof -
  assume "is_catalog S"
  then have "mset (map fst S) = mset (map fst catalog)" by (rule is_catalog_keys)
  moreover have "distinct (map fst catalog)" by (simp add: catalog_keys)
  ultimately show ?thesis by (metis mset_eq_imp_distinct_iff)
qed

lemma is_catalog_lookup:
  assumes "is_catalog S" and "map_of S e = Some secs"
  shows "\<exists>secs0. (e, secs0) \<in> set catalog \<and> mset secs = mset secs0"
proof -
  from assms(2) have "(e, secs) \<in> set S" by (rule map_of_SomeD)
  then have "(e, mset secs) \<in> set (map (apsnd mset) S)" by force
  also have "set (map (apsnd mset) S) = set (map (apsnd mset) catalog)"
    using assms(1) unfolding is_catalog_def by (rule mset_eq_setD)
  finally show ?thesis by auto
qed

lemma is_catalog_lookup_rev:
  assumes "is_catalog S" and "(e, secs0) \<in> set catalog"
  shows "\<exists>secs. map_of S e = Some secs \<and> mset secs = mset secs0"
proof -
  from assms(2) have "(e, mset secs0) \<in> set (map (apsnd mset) catalog)" by force
  also have "set (map (apsnd mset) catalog) = set (map (apsnd mset) S)"
    using assms(1) unfolding is_catalog_def by (metis mset_eq_setD)
  finally obtain secs where "(e, secs) \<in> set S" "mset secs = mset secs0" by auto
  moreover have "distinct (map fst S)" using assms(1) by (rule is_catalog_distinct)
  ultimately show ?thesis by auto
qed

lemma same_sections_map_of:
  assumes "mset secs = mset secs0" and "distinct (map fst secs0)"
  shows "map_of secs = map_of secs0"
proof -
  have "mset (map fst secs) = mset (map fst secs0)" using assms(1) by (metis mset_map)
  then have "distinct (map fst secs)" using assms(2) by (metis mset_eq_imp_distinct_iff)
  moreover have "set secs = set secs0" using assms(1) by (rule mset_eq_setD)
  ultimately show ?thesis using assms(2) by (metis map_of_inject_set)
qed

lemma is_catalog_era_not_all:
  assumes "is_catalog S" and "map_of S e = Some secs"
  shows "e \<noteq> ''all''"
proof -
  obtain secs0 where "(e, secs0) \<in> set catalog" using is_catalog_lookup [OF assms] by blast
  then have "e \<in> set (map fst catalog)" by force
  then show ?thesis by (auto simp: catalog_keys)
qed

lemma is_catalog_section_nonempty:
  assumes "is_catalog S" and "map_of S e = Some secs" and "map_of secs s = Some us"
  shows "s \<noteq> []"
proof -
  obtain secs0 where in0: "(e, secs0) \<in> set catalog" and eq: "mset secs = mset secs0"
    using is_catalog_lookup [OF assms(1,2)] by blast
  have "(s, us) \<in> set secs" using assms(3) by (rule map_of_SomeD)
  then have "(s, us) \<in> set secs0" using eq by (metis mset_eq_setD)
  then have "s \<in> fst ` set secs0" by force
  then show ?thesis using catalog_sections_wf [OF in0] by blast
qed

lemma mset_reordered:
  "mset (map (apsnd mset) (map (apsnd rev) (rev S))) = mset (map (apsnd mset) S)"
  by (induction S) auto

lemma is_catalog_reordered: "is_catalog catalog_reordered"
  unfolding is_catalog_def catalog_reordered_def by (rule mset_reordered)

lemma mset_flat_sections:
  "mset (concat (map snd secs)) = sum_mset (image_mset (\<lambda>p. mset (snd p)) (mset secs))"
  by (induction secs) auto

lemma mset_flat_sections_cong:
  "mset secs = mset secs0 \<Longrightarrow> mset (concat (map snd secs)) = mset (concat (map snd secs0))"
  by (simp add: mset_flat_sections)

lemma mset_flat_samples:
  "mset (concat (map (\<lambda>(_, sections). concat (map snd sections)) S))
     = sum_mset (image_mset (\<lambda>(e, M). sum_mset (image_mset (\<lambda>p. mset (snd p)) M))
                   (mset (map (apsnd mset) S)))"
  by (induction S) (auto simp: mset_flat_sections)

lemma is_catalog_mset_all:
  "is_catalog S \<Longrightarrow>
   mset (concat (map (\<lambda>(_, sections). concat (map snd sections)) S))
     = mset (concat (map (\<lambda>(_, sections). concat (map snd sections)) catalog))"
  unfolding is_catalog_def mset_flat_samples by (rule arg_cong)

lemma count_list_cong: "mset xs = mset ys \<Longrightarrow> count_list xs u = count_list ys u"
  by (metis count_mset)

lemma count_list_2_not_distinct: "count_list xs u = 2 \<Longrightarrow> \<not> distinct xs"
  by (metis count_mset distinct_count_atmost_1 numeral_eq_one_iff semiring_norm(85) zero_neq_numeral)

lemma post2012_counts:
  "\<exists>secs0. (''post-2012'', secs0) \<in> set catalog
       \<and> (\<forall>u \<in> set duplicated. count_list (concat (map snd secs0)) u = 2)
       \<and> (\<forall>u \<in> set duplicated. \<exists>w b. map_of secs0 ''woodwinds'' = Some w
                \<and> map_of secs0 ''brass'' = Some b \<and> u \<in> set w \<and> u \<in> set b)"
  by (rule exI [of _ "the (map_of catalog ''post-2012'')"]) (simp add: catalog_def duplicated_def)

lemma all_counts:
  "\<forall>u \<in> set duplicated.
     count_list (concat (map (\<lambda>(_, sections). concat (map snd sections)) catalog)) u = 2"
  by (simp add: catalog_def duplicated_def)

subsection \<open>Selecting one section\<close>

text \<open>
  Claim C2. For every era and section of the catalog, in whatever order the map is
  represented, \<^verbatim>\<open>urls\<close> succeeds and returns the list stored under that era and that
  section, unchanged. No era of the catalog is \<^verbatim>\<open>all\<close> and no section has the empty name,
  so the lookup of the section is the branch that runs.
\<close>

theorem urls_select_section:
  assumes "is_catalog (Samples (Config app))"
    and "map_of (Samples (Config app)) (Era (Config app)) = Some sections"
    and "map_of sections (Section (Config app)) = Some us"
  shows "urls app = Inr us"
proof -
  have "Era (Config app) \<noteq> ''all''" using assms(1,2) by (rule is_catalog_era_not_all)
  moreover have "Section (Config app) \<noteq> []" using assms by (rule is_catalog_section_nonempty)
  ultimately show ?thesis using assms(2,3) by (simp add: urls_def)
qed

theorem urls_select_section_witness:
  "is_catalog (Samples (Config (app_of ''pre-2012'' ''foundobjects'' catalog_reordered)))
   \<and> (\<exists>sections. map_of (Samples (Config (app_of ''pre-2012'' ''foundobjects'' catalog_reordered)))
                    (Era (Config (app_of ''pre-2012'' ''foundobjects'' catalog_reordered))) = Some sections
         \<and> map_of sections (Section (Config (app_of ''pre-2012'' ''foundobjects'' catalog_reordered)))
             = Some [''http://theremin.music.uiowa.edu/MISfoundobjects1.html''])
   \<and> urls (app_of ''pre-2012'' ''foundobjects'' catalog_reordered)
       = Inr [''http://theremin.music.uiowa.edu/MISfoundobjects1.html'']"
proof -
  let ?app = "app_of ''pre-2012'' ''foundobjects'' catalog_reordered"
  let ?secs = "the (map_of catalog_reordered ''pre-2012'')"
  have h1: "is_catalog (Samples (Config ?app))"
    by (simp add: app_of_def is_catalog_reordered)
  have h2: "map_of (Samples (Config ?app)) (Era (Config ?app)) = Some ?secs"
    by (simp add: app_of_def catalog_reordered_def catalog_def)
  have h3: "map_of ?secs (Section (Config ?app))
              = Some [''http://theremin.music.uiowa.edu/MISfoundobjects1.html'']"
    by (simp add: app_of_def catalog_reordered_def catalog_def)
  from urls_select_section [OF h1 h2 h3] h1 h2 h3 show ?thesis by blast
qed

subsection \<open>Selecting everything\<close>

text \<open>
  Claim C4. When the era is \<^verbatim>\<open>all\<close>, \<^verbatim>\<open>urls\<close> succeeds whatever the section is,
  for every catalog: the result holds the seed URLs of every section of every era, and
  its length is the sum of the lengths of all the section lists.
\<close>

theorem urls_all:
  assumes "Era (Config app) = ''all''"
  shows "\<exists>out. urls app = Inr out
           \<and> set out = (\<Union>(e, sections) \<in> set (Samples (Config app)). \<Union>(s, us) \<in> set sections. set us)
           \<and> length out = (\<Sum>(e, sections) \<leftarrow> Samples (Config app). \<Sum>(s, us) \<leftarrow> sections. length us)"
  using assms by (simp add: urls_all_eq length_concat_samples set_concat_samples del: set_concat)

theorem urls_all_witness:
  "Era (Config \<lparr>Config = \<lparr>Download = False, Era = ''all'', Section = ''brass'', Samples = catalog\<rparr>\<rparr>) = ''all''
   \<and> (\<exists>out. urls \<lparr>Config = \<lparr>Download = False, Era = ''all'', Section = ''brass'', Samples = catalog\<rparr>\<rparr> = Inr out
           \<and> length out = 68)"
proof -
  let ?app = "\<lparr>Config = \<lparr>Download = False, Era = ''all'', Section = ''brass'', Samples = catalog\<rparr>\<rparr>"
  have era: "Era (Config ?app) = ''all''" by simp
  obtain out where out: "urls ?app = Inr out"
    and len: "length out = (\<Sum>(e, sections) \<leftarrow> Samples (Config ?app). \<Sum>(s, us) \<leftarrow> sections. length us)"
    using urls_all [OF era] by blast
  have "(\<Sum>(e, sections) \<leftarrow> catalog. \<Sum>(s, us) \<leftarrow> sections. length us) = 68"
    by (simp add: catalog_def)
  with len have "length out = 68" by simp
  with out era show ?thesis by blast
qed

subsection \<open>Unknown eras and sections\<close>

text \<open>
  Claim C5. On the catalog, an era that is neither \<^verbatim>\<open>all\<close> nor a key of the catalog
  gives the error \<^verbatim>\<open>unsupported era\<close> followed by the era, and a known era with a
  non-empty section that is not a key of that era gives the error
  \<^verbatim>\<open>unsupported section\<close> followed by the section.
\<close>

theorem urls_unsupported:
  assumes "is_catalog (Samples (Config app))"
  shows "(Era (Config app) \<noteq> ''all'' \<and> Era (Config app) \<notin> fst ` set (Samples (Config app))
            \<longrightarrow> urls app = Inl (''unsupported era: '' @ Era (Config app)))
       \<and> (\<forall>sections. map_of (Samples (Config app)) (Era (Config app)) = Some sections
              \<and> Section (Config app) \<noteq> [] \<and> Section (Config app) \<notin> fst ` set sections
            \<longrightarrow> urls app = Inl (''unsupported section: '' @ Section (Config app)))"
proof (intro conjI impI allI)
  assume "Era (Config app) \<noteq> ''all'' \<and> Era (Config app) \<notin> fst ` set (Samples (Config app))"
  then show "urls app = Inl (''unsupported era: '' @ Era (Config app))"
    by (simp add: urls_def errors_New_def map_of_eq_None_iff [THEN iffD2])
next
  fix sections
  assume h: "map_of (Samples (Config app)) (Era (Config app)) = Some sections
              \<and> Section (Config app) \<noteq> [] \<and> Section (Config app) \<notin> fst ` set sections"
  then have "Era (Config app) \<noteq> ''all''" using assms is_catalog_era_not_all by blast
  moreover have "map_of sections (Section (Config app)) = None"
    using h by (simp add: map_of_eq_None_iff)
  ultimately show "urls app = Inl (''unsupported section: '' @ Section (Config app))"
    using h by (simp add: urls_def errors_New_def)
qed

theorem urls_unsupported_witness:
  "is_catalog (Samples (Config (app_of ''bogus-era'' [] catalog)))
   \<and> urls (app_of ''bogus-era'' [] catalog) = Inl ''unsupported era: bogus-era''
   \<and> is_catalog (Samples (Config (app_of ''pre-2012'' ''bogus-section'' catalog)))
   \<and> urls (app_of ''pre-2012'' ''bogus-section'' catalog) = Inl ''unsupported section: bogus-section''"
proof -
  let ?a = "app_of ''bogus-era'' [] catalog"
  let ?b = "app_of ''pre-2012'' ''bogus-section'' catalog"
  have ha: "is_catalog (Samples (Config ?a))" by (simp add: app_of_def is_catalog_refl)
  have hb: "is_catalog (Samples (Config ?b))" by (simp add: app_of_def is_catalog_refl)
  have a1: "Era (Config ?a) \<noteq> ''all'' \<and> Era (Config ?a) \<notin> fst ` set (Samples (Config ?a))"
    by (simp add: app_of_def catalog_def)
  have b1: "map_of (Samples (Config ?b)) (Era (Config ?b)) = Some (the (map_of catalog ''pre-2012''))
            \<and> Section (Config ?b) \<noteq> []
            \<and> Section (Config ?b) \<notin> fst ` set (the (map_of catalog ''pre-2012''))"
    by (simp add: app_of_def catalog_def)
  have "urls ?a = Inl (''unsupported era: '' @ Era (Config ?a))"
    using urls_unsupported [OF ha] a1 by blast
  moreover have "urls ?b = Inl (''unsupported section: '' @ Section (Config ?b))"
    using urls_unsupported [OF hb] b1 by blast
  ultimately show ?thesis using ha hb by (simp add: app_of_def)
qed

subsection \<open>Validation in \<^verbatim>\<open>NewConfig\<close>\<close>

text \<open>
  Claim C9. A configuration that \<^verbatim>\<open>NewConfig\<close> returns without error makes \<^verbatim>\<open>urls\<close>
  succeed: the two error branches of \<^verbatim>\<open>urls\<close> repeat the checks of \<^verbatim>\<open>NewConfig\<close>.
\<close>

theorem NewConfig_urls_ok:
  assumes "NewConfig dl e s = Inr conf" and "NewApp conf = Inr app"
  shows "\<exists>out. urls app = Inr out"
  using assms
  by (auto simp: NewConfig_def NewApp_def urls_def Let_def split: if_splits option.splits)

theorem NewConfig_urls_ok_witness:
  "NewConfig True ''post-2012'' ''brass''
     = Inr \<lparr>Download = True, Era = ''post-2012'', Section = ''brass'', Samples = catalog\<rparr>
   \<and> NewApp \<lparr>Download = True, Era = ''post-2012'', Section = ''brass'', Samples = catalog\<rparr>
     = Inr \<lparr>Config = \<lparr>Download = True, Era = ''post-2012'', Section = ''brass'', Samples = catalog\<rparr>\<rparr>
   \<and> (\<exists>out. urls \<lparr>Config = \<lparr>Download = True, Era = ''post-2012'', Section = ''brass'',
                              Samples = catalog\<rparr>\<rparr> = Inr out)"
proof -
  let ?c = "\<lparr>Download = True, Era = ''post-2012'', Section = ''brass'', Samples = catalog\<rparr>"
  obtain secs us where "map_of catalog ''post-2012'' = Some secs" "map_of secs ''brass'' = Some us"
    by (simp add: catalog_def)
  then have h1: "NewConfig True ''post-2012'' ''brass'' = Inr ?c"
    by (simp add: NewConfig_def Let_def)
  have h2: "NewApp ?c = Inr \<lparr>Config = ?c\<rparr>" by (simp add: NewApp_def)
  from NewConfig_urls_ok [OF h1 h2] h1 h2 show ?thesis by blast
qed

subsection \<open>Seed URLs listed twice\<close>

text \<open>
  Claim C10. In the catalog, under the era \<^verbatim>\<open>post-2012\<close>, each of the four URLs of
  \<open>duplicated\<close> is listed under \<^verbatim>\<open>woodwinds\<close> and again under \<^verbatim>\<open>brass\<close>. So the
  result of \<^verbatim>\<open>urls\<close> for the era \<^verbatim>\<open>post-2012\<close> with no section, and for the era
  \<^verbatim>\<open>all\<close>, holds each of them twice, in whatever order the maps are visited.
\<close>

theorem catalog_duplicates:
  assumes "is_catalog (Samples (Config app))"
    and "Era (Config app) = ''all''
         \<or> (Era (Config app) = ''post-2012'' \<and> Section (Config app) = [])"
    and "u \<in> set duplicated"
  shows "\<exists>sections woodwinds brass out.
           map_of (Samples (Config app)) ''post-2012'' = Some sections
         \<and> map_of sections ''woodwinds'' = Some woodwinds
         \<and> map_of sections ''brass'' = Some brass
         \<and> u \<in> set woodwinds \<and> u \<in> set brass
         \<and> urls app = Inr out \<and> count_list out u = 2 \<and> \<not> distinct out"
proof -
  obtain secs0 where in0: "(''post-2012'', secs0) \<in> set catalog"
    and cnt0: "\<forall>u \<in> set duplicated. count_list (concat (map snd secs0)) u = 2"
    and in1: "\<forall>u \<in> set duplicated. \<exists>w b. map_of secs0 ''woodwinds'' = Some w
                \<and> map_of secs0 ''brass'' = Some b \<and> u \<in> set w \<and> u \<in> set b"
    using post2012_counts by blast
  obtain sections where look: "map_of (Samples (Config app)) ''post-2012'' = Some sections"
    and eq: "mset sections = mset secs0"
    using is_catalog_lookup_rev [OF assms(1) in0] by blast
  have "distinct (map fst secs0)" using catalog_sections_wf [OF in0] by simp
  with eq have same: "map_of sections = map_of secs0" by (rule same_sections_map_of)
  obtain w b where wb: "map_of sections ''woodwinds'' = Some w"
    "map_of sections ''brass'' = Some b" "u \<in> set w" "u \<in> set b"
    using in1 assms(3) same by auto
  have "\<exists>out. urls app = Inr out \<and> count_list out u = 2"
  proof (cases "Era (Config app) = ''all''")
    case True
    then have "urls app
        = Inr (concat (map (\<lambda>(_, sections). concat (map snd sections)) (Samples (Config app))))"
      by (rule urls_all_eq)
    moreover have "count_list (concat (map (\<lambda>(_, sections). concat (map snd sections))
                                   (Samples (Config app)))) u = 2"
      using count_list_cong [OF is_catalog_mset_all [OF assms(1)], of u] all_counts assms(3)
      by simp
    ultimately show ?thesis by blast
  next
    case False
    with assms(2) have era: "Era (Config app) = ''post-2012''" and sec: "Section (Config app) = []"
      by auto
    have "urls app = Inr (concat (map snd sections))"
      using era sec look by (simp add: urls_def foldl_append_urls)
    moreover have "count_list (concat (map snd sections)) u = 2"
      using count_list_cong [OF mset_flat_sections_cong [OF eq], of u] cnt0 assms(3) by simp
    ultimately show ?thesis by blast
  qed
  then obtain out where "urls app = Inr out" "count_list out u = 2" by blast
  moreover from this have "\<not> distinct out" by (metis count_list_2_not_distinct)
  ultimately show ?thesis using look wb by blast
qed

theorem catalog_duplicates_witness:
  "is_catalog (Samples (Config (app_of ''post-2012'' [] catalog_reordered)))
   \<and> (Era (Config (app_of ''post-2012'' [] catalog_reordered)) = ''all''
        \<or> (Era (Config (app_of ''post-2012'' [] catalog_reordered)) = ''post-2012''
            \<and> Section (Config (app_of ''post-2012'' [] catalog_reordered)) = []))
   \<and> ''http://theremin.music.uiowa.edu/MIS-Pitches-2012/MISBassoon2012.html'' \<in> set duplicated
   \<and> (\<exists>out. urls (app_of ''post-2012'' [] catalog_reordered) = Inr out
         \<and> count_list out ''http://theremin.music.uiowa.edu/MIS-Pitches-2012/MISBassoon2012.html'' = 2
         \<and> \<not> distinct out)"
proof -
  let ?app = "app_of ''post-2012'' [] catalog_reordered"
  let ?u = "''http://theremin.music.uiowa.edu/MIS-Pitches-2012/MISBassoon2012.html''"
  have h1: "is_catalog (Samples (Config ?app))"
    by (simp add: app_of_def is_catalog_reordered)
  have h2: "Era (Config ?app) = ''all''
         \<or> (Era (Config ?app) = ''post-2012'' \<and> Section (Config ?app) = [])"
    by (simp add: app_of_def)
  have h3: "?u \<in> set duplicated" by (simp add: duplicated_def)
  from catalog_duplicates [OF h1 h2 h3] have "\<exists>out. urls ?app = Inr out \<and> count_list out ?u = 2 \<and> \<not> distinct out"
    by blast
  with h1 h2 h3 show ?thesis by blast
qed

section \<open>The page scraper\<close>

subsection \<open>The program's string tests and the loops\<close>

lemma HasPrefix_iff: "HasPrefix s pre \<longleftrightarrow> prefix pre s"
  unfolding HasPrefix_def
  by (metis prefix_length_le take_is_prefix append_eq_conv_conj prefix_def)

lemma HasSuffix_iff: "HasSuffix s suf \<longleftrightarrow> suffix suf s"
proof
  assume "HasSuffix s suf"
  then have "s = take (length s - length suf) s @ suf"
    unfolding HasSuffix_def by (metis append_take_drop_id)
  then show "suffix suf s" by (metis suffixI)
next
  assume "suffix suf s"
  then obtain zs where "s = zs @ suf" by (auto simp: suffix_def)
  then show "HasSuffix s suf" by (simp add: HasSuffix_def)
qed

lemma IsAudioFile_iff:
  "IsAudioFile s \<longleftrightarrow> suffix ''.aif'' s \<or> suffix ''.aiff'' s \<or> suffix ''.wav'' s"
  by (simp add: IsAudioFile_def HasSuffix_iff)

lemma foldl_snoc: "foldl (\<lambda>downloads u. downloads @ [u]) acc ks = acc @ ks"
  by (induction ks arbitrary: acc) auto

lemma set_dm_insert: "set (dm_insert k dm) = insert k (set dm)"
  by (auto simp: dm_insert_def)

lemma distinct_dm_insert: "distinct dm \<Longrightarrow> distinct (dm_insert k dm)"
  by (simp add: dm_insert_def)

lemma set_scrapeAttr:
  "set (scrapeAttr u dm attr)
     = set dm \<union> (if Key attr = ''href'' \<and> IsAudioFile (Val attr) then {resolved u (Val attr)} else {})"
  by (simp add: scrapeAttr_def set_dm_insert resolved_def HasPrefix_iff Let_def)

lemma distinct_scrapeAttr: "distinct dm \<Longrightarrow> distinct (scrapeAttr u dm attr)"
  by (simp add: scrapeAttr_def distinct_dm_insert Let_def)

lemma set_foldl_scrapeAttr:
  "set (foldl (scrapeAttr u) dm attrs)
     = set dm \<union> set (audio_links u (map Val (filter (\<lambda>attr. Key attr = ''href'') attrs)))"
  by (induction attrs arbitrary: dm) (auto simp: set_scrapeAttr audio_links_def)

lemma distinct_foldl_scrapeAttr:
  "distinct dm \<Longrightarrow> distinct (foldl (scrapeAttr u) dm attrs)"
  by (induction attrs arbitrary: dm) (auto simp: distinct_scrapeAttr)

lemma audio_links_append: "audio_links u (vs @ ws) = audio_links u vs @ audio_links u ws"
  by (simp add: audio_links_def)

lemma set_foldl_links:
  "set (foldl (\<lambda>dm link. foldl (scrapeAttr u) dm (Attr link)) dm links)
     = set dm \<union> set (audio_links u (hrefs links))"
proof (induction links arbitrary: dm)
  case Nil
  show ?case by (simp add: hrefs_def audio_links_def)
next
  case (Cons link links)
  have "hrefs (link # links) = map Val (filter (\<lambda>attr. Key attr = ''href'') (Attr link)) @ hrefs links"
    by (simp add: hrefs_def)
  then show ?case
    by (simp add: Cons.IH set_foldl_scrapeAttr audio_links_append Un_assoc)
qed

lemma distinct_foldl_links:
  "distinct dm \<Longrightarrow> distinct (foldl (\<lambda>dm link. foldl (scrapeAttr u) dm (Attr link)) dm links)"
  by (induction links arbitrary: dm) (auto simp: distinct_foldl_scrapeAttr)

lemma set_audio_links:
  "set (audio_links u vs) = {resolved u v | v. v \<in> set vs \<and> IsAudioFile v}"
  by (auto simp: audio_links_def)

lemma collect_as_list: "{f v | v. v \<in> set xs \<and> P v} = set (map f (filter P xs))"
  by auto

subsection \<open>The links of a page\<close>

text \<open>
  Claim C3. When the page is fetched and parsed, \<^verbatim>\<open>scrape\<close> returns a list without
  repetition whose elements are exactly the URLs \<^verbatim>\<open>http://\<close> + host + \<^verbatim>\<open>/\<close> + value, for
  the \<^verbatim>\<open>href\<close> values of the anchors that end in \<^verbatim>\<open>.aif\<close>, \<^verbatim>\<open>.aiff\<close> or \<^verbatim>\<open>.wav\<close>
  (bytes compared as they are), a leading \<^verbatim>\<open>../\<close> removed from the value. This holds
  in whatever order the keys of the map \<^verbatim>\<open>dm\<close> are visited.
\<close>

theorem scrape_links:
  assumes "http_Get env url = Inr resp"
    and "html_Parse env (Body resp) = Inr root"
    and "stdurl_Parse env url = Inr u"
    and "\<And>ks. mset (rangeKeys env ks) = mset ks"
  shows "\<exists>downloads. scrape env url = Inr downloads \<and> distinct downloads
           \<and> set downloads
               = {''http://'' @ Host u @ ''/'' @ (if prefix ''../'' v then drop 3 v else v) | v.
                    v \<in> set (hrefs (FindAll_A env root))
                    \<and> (suffix ''.aif'' v \<or> suffix ''.aiff'' v \<or> suffix ''.wav'' v)}"
proof -
  let ?dm = "foldl (\<lambda>dm link. foldl (scrapeAttr u) dm (Attr link)) [] (FindAll_A env root)"
  have run: "scrape env url = Inr (rangeKeys env ?dm)"
    using assms(1-3) by (simp add: scrape_def foldl_snoc)
  have perm: "mset (rangeKeys env ?dm) = mset ?dm" by (rule assms(4))
  have "distinct ?dm" by (simp add: distinct_foldl_links)
  with perm have d: "distinct (rangeKeys env ?dm)" by (metis mset_eq_imp_distinct_iff)
  have "set (rangeKeys env ?dm) = set ?dm" using perm by (rule mset_eq_setD)
  then have s: "set (rangeKeys env ?dm) = set (audio_links u (hrefs (FindAll_A env root)))"
    by (simp add: set_foldl_links)
  have "set (rangeKeys env ?dm)
          = {resolved u v | v. v \<in> set (hrefs (FindAll_A env root)) \<and> IsAudioFile v}"
    unfolding s by (rule set_audio_links)
  then show ?thesis using run d unfolding resolved_def IsAudioFile_iff by simp
qed

theorem scrape_links_witness:
  "http_Get (example_env 200 ''200 OK'' page_anchors) ''http://host/index.html''
     = Inr \<lparr>Status = ''200 OK'', StatusCode = 200, Body = ''<html>''\<rparr>
   \<and> html_Parse (example_env 200 ''200 OK'' page_anchors) ''<html>''
     = Inr (Node ''html'' [] page_anchors)
   \<and> stdurl_Parse (example_env 200 ''200 OK'' page_anchors) ''http://host/index.html''
     = Inr \<lparr>Host = ''host'', Path = ''/index.html''\<rparr>
   \<and> (\<forall>ks. mset (rangeKeys (example_env 200 ''200 OK'' page_anchors) ks) = mset ks)
   \<and> (\<exists>downloads. scrape (example_env 200 ''200 OK'' page_anchors) ''http://host/index.html''
                      = Inr downloads
         \<and> distinct downloads
         \<and> set downloads = {''http://host/a.wav'', ''http://host/b.aiff''})"
proof -
  let ?env = "example_env 200 ''200 OK'' page_anchors"
  let ?resp = "\<lparr>Status = ''200 OK'', StatusCode = 200, Body = ''<html>''\<rparr>"
  let ?u = "\<lparr>Host = ''host'', Path = ''/index.html''\<rparr>"
  have h1: "http_Get ?env ''http://host/index.html'' = Inr ?resp"
    by (simp add: example_env_def)
  have h2: "html_Parse ?env (Body ?resp) = Inr (Node ''html'' [] page_anchors)"
    by (simp add: example_env_def)
  have h3: "stdurl_Parse ?env ''http://host/index.html'' = Inr ?u"
    by (simp add: example_env_def)
  have h4: "\<And>ks. mset (rangeKeys ?env ks) = mset ks"
    by (simp add: example_env_def)
  have anchors: "hrefs (FindAll_A ?env (Node ''html'' [] page_anchors))
                   = [''a.wav'', ''../b.aiff'', ''c.txt'', ''d.AIF'', ''a.wav'']"
    by (simp add: example_env_def page_anchors_def hrefs_def)
  have "{''http://'' @ Host ?u @ ''/'' @ (if prefix ''../'' v then drop 3 v else v) | v.
           v \<in> set (hrefs (FindAll_A ?env (Node ''html'' [] page_anchors)))
           \<and> (suffix ''.aif'' v \<or> suffix ''.aiff'' v \<or> suffix ''.wav'' v)}
        = {''http://host/a.wav'', ''http://host/b.aiff''}"
    unfolding anchors collect_as_list by (auto simp: suffix_to_prefix)
  with scrape_links [OF h1 h2 h3 h4] h1 h2 h3 h4 show ?thesis by simp
qed

subsection \<open>The status of the response\<close>

text \<open>Replacing the status code of every response leaves the result of \<^verbatim>\<open>scrape\<close> as it is.\<close>

lemma scrape_status_unread:
  "scrape (env\<lparr>http_Get := (\<lambda>url. map_sum id (StatusCode_update (\<lambda>_. code)) (http_Get env url))\<rparr>) url
     = scrape env url"
  by (cases "http_Get env url") (simp_all add: scrape_def cong: sum.case_cong)

text \<open>
  Claim C1. The claim is that \<^verbatim>\<open>scrape\<close> fails when the response has a status that is not
  a success. \<^verbatim>\<open>scrape\<close> never reads the status, unlike the fetcher: on a response
  \<^verbatim>\<open>404 Not Found\<close> it parses the body and returns the links it finds there, with no
  error.
\<close>

theorem scrape_ignores_status:
  "(\<exists>resp. http_Get (example_env 404 ''404 Not Found'' page_anchors) ''http://host/index.html'' = Inr resp
           \<and> StatusCode resp = 404)
   \<and> scrape (example_env 404 ''404 Not Found'' page_anchors) ''http://host/index.html''
       = Inr [''http://host/b.aiff'', ''http://host/a.wav'']"
  by (simp add: example_env_def page_anchors_def scrape_def scrapeAttr_def IsAudioFile_def
      HasSuffix_def HasPrefix_def dm_insert_def)

section \<open>Properties of the fetcher and the writer\<close>

text \<open>
  Claim C8. When \<^verbatim>\<open>http.Get\<close> fails in the fetcher, the fetcher panics with that
  error: it returns nothing, so the error does not reach the error result of the
  group.
\<close>

theorem contentFetcher_transport_panic:
  assumes "http_Get env download = Inl err"
  shows "contentFetcher env sel download = Panic err
         \<and> (\<forall>r. contentFetcher env sel download \<noteq> Return r)"
  using assms by (simp add: contentFetcher_def)

theorem contentFetcher_transport_panic_witness:
  "http_Get env_unreachable ''http://host/a.wav'' = Inl ''dial tcp: connection refused''
   \<and> contentFetcher env_unreachable Comm ''http://host/a.wav'' = Panic ''dial tcp: connection refused''
   \<and> (\<forall>r. contentFetcher env_unreachable Comm ''http://host/a.wav'' \<noteq> Return r)"
proof -
  have h: "http_Get env_unreachable ''http://host/a.wav'' = Inl ''dial tcp: connection refused''"
    by (simp add: env_unreachable_def)
  from contentFetcher_transport_panic [OF h] h show ?thesis by blast
qed

text \<open>
  A writer that returns no error has created and written the file \<^verbatim>\<open>u.Path[1:]\<close>, and
  no other; on a URL with an empty path it panics.
\<close>

lemma contentWriter_writes_localPath:
  assumes "stdurl_Parse env (Location download) = Inr u"
    and "localPath u = Return file"
    and "contentWriter env (Some download) = Return (calls, None)"
  shows "calls = [MkdirAll (path_Dir env file), Create file, Copy file (Content download),
                  CloseFile file, CloseContent (Location download)]"
  using assms by (auto simp: contentWriter_def split: option.splits)

lemma contentWriter_empty_path_panics:
  assumes "stdurl_Parse env (Location download) = Inr u" and "Path u = []"
  shows "\<exists>p. contentWriter env (Some download) = Panic p"
  using assms by (simp add: contentWriter_def localPath_def)



end
